theory Spec2Isabelle
  imports Main "HOL-Library.Sublist"
begin

section \<open>Python values and strings\<close>

text \<open>
  The embedding of \<^verbatim>\<open>netdev/core/device_stream.py\<close>. A Python \<^verbatim>\<open>str\<close> is a
  \<^typ>\<open>string\<close>, one \<^typ>\<open>char\<close> per character (the characters the code inspects are
  all ASCII: line feed, carriage return, backspace and the regex metacharacters).
\<close>

abbreviation LF :: char where "LF \<equiv> CHR 0x0A"
abbreviation CR :: char where "CR \<equiv> CHR 0x0D"
abbreviation BS :: char where "BS \<equiv> CHR 0x08"

text \<open>Python's \<^verbatim>\<open>output.split("\n")\<close>: never empty, one more piece than there are line feeds.\<close>

fun split_nl :: "string \<Rightarrow> string list" where
  "split_nl [] = [[]]"
| "split_nl (c # cs) =
     (if c = LF then [] # split_nl cs
      else (case split_nl cs of
              [] \<Rightarrow> [[c]]
            | line # lines \<Rightarrow> (c # line) # lines))"

text \<open>Python's \<^verbatim>\<open>sep.join(pieces)\<close>.\<close>

fun join_str :: "string \<Rightarrow> string list \<Rightarrow> string" where
  "join_str sep [] = []"
| "join_str sep [x] = x"
| "join_str sep (x # y # ys) = x @ sep @ join_str sep (y # ys)"

text \<open>Python's \<^verbatim>\<open>cmd.rstrip("\n")\<close>: every trailing line feed goes.\<close>

definition rstrip_nl :: "string \<Rightarrow> string" where
  "rstrip_nl s = rev (dropWhile (\<lambda>c. c = LF) (rev s))"

section \<open>The sanitizer (static methods of DeviceStream)\<close>

text \<open>\<^verbatim>\<open>_normalize_cmd\<close>: \<^verbatim>\<open>cmd.rstrip("\n") + "\n"\<close>.\<close>

definition normalize_cmd :: "string \<Rightarrow> string" where
  "normalize_cmd cmd = rstrip_nl cmd @ [LF]"

text \<open>\<^verbatim>\<open>_strip_prompt\<close>: \<^verbatim>\<open>"\n".join(output.split("\n")[:-1])\<close>.\<close>

definition strip_prompt :: "string \<Rightarrow> string" where
  "strip_prompt output = join_str [LF] (butlast (split_nl output))"

text \<open>
  \<^verbatim>\<open>_strip_command\<close>: with a backspace anywhere in the output, all backspaces are removed
  and the first line is dropped; otherwise \<^verbatim>\<open>output[len(cmd):]\<close>.
\<close>

definition strip_command :: "string \<Rightarrow> string \<Rightarrow> string" where
  "strip_command cmd output =
     (if BS \<in> set output
      then join_str [LF] (tl (split_nl (filter (\<lambda>c. c \<noteq> BS) output)))
      else drop (length cmd) output)"

text \<open>
  \<^verbatim>\<open>_normalize_linefeeds\<close>: \<^verbatim>\<open>re.compile(r"(\r\r\n|\r\n|\n\r)").sub("\n", output)\<close>.
  The substitution scans once from the left; at each position the three alternatives are
  tried in the order written, a match is replaced by one line feed and the scan goes on
  behind it, and a character where none matches is copied.
\<close>

fun normalize_linefeeds :: "string \<Rightarrow> string" where
  "normalize_linefeeds (c # d # e # cs) =
     (if c = CR \<and> d = CR \<and> e = LF then LF # normalize_linefeeds cs
      else if c = CR \<and> d = LF then LF # normalize_linefeeds (e # cs)
      else if c = LF \<and> d = CR then LF # normalize_linefeeds (e # cs)
      else c # normalize_linefeeds (d # e # cs))"
| "normalize_linefeeds [c, d] =
     (if c = CR \<and> d = LF then [LF]
      else if c = LF \<and> d = CR then [LF]
      else c # normalize_linefeeds [d])"
| "normalize_linefeeds [c] = [c]"
| "normalize_linefeeds [] = []"

text \<open>A carriage return next to a line feed, in either order, somewhere in the text.\<close>

fun has_mixed_ending :: "string \<Rightarrow> bool" where
  "has_mixed_ending (c # d # cs) =
     ((c = CR \<and> d = LF) \<or> (c = LF \<and> d = CR) \<or> has_mixed_ending (d # cs))"
| "has_mixed_ending _ = False"

section \<open>Python values, errors and the regular-expression library\<close>

text \<open>
  The arguments \<^verbatim>\<open>cmd_list\<close> and \<^verbatim>\<open>patterns\<close> of \<^verbatim>\<open>send_commands\<close> are inspected with
  truthiness and \<^verbatim>\<open>isinstance\<close>, so they are modelled as dynamically typed values.
\<close>

datatype pyval =
    PyNone
  | PyBool bool
  | PyInt int
  | PyStr string
  | PyList "pyval list"
  | PyTuple "pyval list"

text \<open>Python's truth value of an object, as \<^verbatim>\<open>not patterns\<close> tests it.\<close>

fun truthy :: "pyval \<Rightarrow> bool" where
  "truthy PyNone = False"
| "truthy (PyBool b) = b"
| "truthy (PyInt n) = (n \<noteq> 0)"
| "truthy (PyStr s) = (s \<noteq> [])"
| "truthy (PyList xs) = (xs \<noteq> [])"
| "truthy (PyTuple xs) = (xs \<noteq> [])"

text \<open>\<^verbatim>\<open>isinstance(v, str)\<close> and \<^verbatim>\<open>isinstance(v, list)\<close>.\<close>

fun is_str :: "pyval \<Rightarrow> bool" where
  "is_str (PyStr s) = True"
| "is_str _ = False"

fun is_list :: "pyval \<Rightarrow> bool" where
  "is_list (PyList xs) = True"
| "is_list _ = False"

text \<open>
  The exceptions that can leave the class. \<open>ReError\<close> is \<^verbatim>\<open>re.error\<close>; \<open>IOError\<close> is a
  failure of the transport; \<open>Unsupported\<close> is not a Python exception: the regex model
  below answers it for a pattern or flag outside the fragment it gives a meaning to.
\<close>

datatype error = ValueError | TypeError | AttributeError | IOError | ReError | Unsupported

datatype re_flag = IGNORECASE | MULTILINE | DOTALL | VERBOSE

text \<open>
  \<^verbatim>\<open>re.search(pattern, string, flags)\<close> belongs to Python's library. The session functions
  take it as their first argument \<open>re_search\<close>: it answers whether the pattern matches
  somewhere in the text, or the exception it raises.
\<close>

type_synonym re_search_fun = "pyval \<Rightarrow> string \<Rightarrow> re_flag set \<Rightarrow> error + bool"

text \<open>
  \<^verbatim>\<open>re.escape\<close> (Python 3.7 and later): a backslash in front of each special character.
\<close>

definition re_special :: "char list" where
  "re_special =
     [CHR ''('', CHR '')'', CHR ''['', CHR '']'', CHR ''{'', CHR ''}'', CHR ''?'', CHR ''*'',
      CHR ''+'', CHR ''-'', CHR ''|'', CHR ''^'', CHR ''$'', CHR 0x5C, CHR ''.'', CHR ''&'',
      CHR ''~'', CHR ''#'', CHR '' '', CHR 0x09, LF, CR, CHR 0x0B, CHR 0x0C]"

fun re_escape :: "string \<Rightarrow> string" where
  "re_escape [] = []"
| "re_escape (c # cs) =
     (if c \<in> set re_special then CHR 0x5C # c # re_escape cs else c # re_escape cs)"

section \<open>The transport\<close>

text \<open>
  Modelled from the spec: the transport collaborator \<^verbatim>\<open>netdev.connections.IOConnection\<close>
  (section 6, "Transport collaborator"), whose code is not part of the source at hand. It is a
  scripted peer: \<open>inbox\<close> holds the chunks the device will deliver, in order, and \<open>trace\<close>
  records every completed transport call, oldest first. \<^verbatim>\<open>send\<close> writes the text;
  \<^verbatim>\<open>read\<close> returns the next chunk, and fails with a transport error once the script is
  used up (the spec defines no end-of-stream contract).
\<close>

datatype io_event = Connected | Disconnected | Sent string | Received string

record IOConnection =
  host :: string
  inbox :: "string list"
  trace :: "io_event list"

text \<open>Modelled from the spec: \<^verbatim>\<open>connect()\<close> of the transport, which opens the channel.\<close>

definition io_connect :: "IOConnection \<Rightarrow> IOConnection" where
  "io_connect io = io\<lparr>trace := trace io @ [Connected]\<rparr>"

text \<open>Modelled from the spec: \<^verbatim>\<open>disconnect()\<close> of the transport.\<close>

definition io_disconnect :: "IOConnection \<Rightarrow> IOConnection" where
  "io_disconnect io = io\<lparr>trace := trace io @ [Disconnected]\<rparr>"

text \<open>Modelled from the spec: \<^verbatim>\<open>send(text)\<close> of the transport, which writes the text.\<close>

definition io_send :: "string \<Rightarrow> IOConnection \<Rightarrow> IOConnection" where
  "io_send text io = io\<lparr>trace := trace io @ [Sent text]\<rparr>"

text \<open>
  Modelled from the spec: \<^verbatim>\<open>read()\<close> of the transport, which returns the next available
  chunk of text.
\<close>

definition io_read :: "IOConnection \<Rightarrow> (error + string) \<times> IOConnection" where
  "io_read io =
     (case inbox io of
        [] \<Rightarrow> (Inl IOError, io)
      | chunk # rest \<Rightarrow> (Inr chunk, io\<lparr>inbox := rest, trace := trace io @ [Received chunk]\<rparr>))"

section \<open>DeviceStream\<close>

text \<open>
  The fields of the object. Every method takes the object and returns it with what it
  mutated, next to its result or the exception it raised; logging is left out.
\<close>

record device_stream =
  io_connection :: IOConnection
  set_prompt_func :: "string \<Rightarrow> string"
  prompt_pattern :: string
  nopage_cmd :: pyval

type_synonym 'a outcome = "(error + 'a) \<times> device_stream"

text \<open>
  \<^verbatim>\<open>__init__\<close>: a missing connection or prompt setter raises \<^verbatim>\<open>ValueError\<close>; the prompt
  pattern is \<^verbatim>\<open>"|".join(map(re.escape, delimeter_list))\<close>.
\<close>

definition DeviceStream_init ::
  "IOConnection option \<Rightarrow> string list \<Rightarrow> (string \<Rightarrow> string) option \<Rightarrow> pyval
     \<Rightarrow> error + device_stream" where
  "DeviceStream_init io_conn delimeter_list set_prompt nopage =
     (case io_conn of
        None \<Rightarrow> Inl ValueError
      | Some io \<Rightarrow>
          (case set_prompt of
             None \<Rightarrow> Inl ValueError
           | Some f \<Rightarrow>
               Inr \<lparr>io_connection = io, set_prompt_func = f,
                    prompt_pattern = join_str [CHR ''|''] (map re_escape delimeter_list),
                    nopage_cmd = nopage\<rparr>))"

text \<open>\<^verbatim>\<open>_send\<close>: \<^verbatim>\<open>cmd.rstrip\<close> exists on a string only.\<close>

definition send :: "pyval \<Rightarrow> device_stream \<Rightarrow> unit outcome" where
  "send cmd s =
     (case cmd of
        PyStr c \<Rightarrow> (Inr (), s\<lparr>io_connection := io_send (normalize_cmd c) (io_connection s)\<rparr>)
      | _ \<Rightarrow> (Inl AttributeError, s))"

text \<open>
  The inner \<^verbatim>\<open>for pattern in pattern_list\<close> of \<^verbatim>\<open>_read_until\<close>: the patterns are tried in
  order; the first match ends the search, and so does the first exception.
\<close>

fun search_any :: "re_search_fun \<Rightarrow> pyval list \<Rightarrow> re_flag set \<Rightarrow> string \<Rightarrow> error + bool" where
  "search_any re_search [] re_flags output = Inr False"
| "search_any re_search (pattern # rest) re_flags output =
     (case re_search pattern output re_flags of
        Inl e \<Rightarrow> Inl e
      | Inr True \<Rightarrow> Inr True
      | Inr False \<Rightarrow> search_any re_search rest re_flags output)"

text \<open>
  The \<^verbatim>\<open>while True\<close> of \<^verbatim>\<open>_read_until\<close>: read a chunk, append it, test the buffer. The
  source loop has no other exit than a match or an exception; here each round takes a
  chunk from the finite script, so the recursion ends, with the transport's failure when
  the script runs out before a pattern matches.
\<close>

function read_until_loop ::
  "re_search_fun \<Rightarrow> pyval list \<Rightarrow> re_flag set \<Rightarrow> string \<Rightarrow> device_stream \<Rightarrow> string outcome" where
  "read_until_loop re_search pattern_list re_flags output s =
     (case io_read (io_connection s) of
        (Inl e, io) \<Rightarrow> (Inl e, s\<lparr>io_connection := io\<rparr>)
      | (Inr buf, io) \<Rightarrow>
          (let s' = s\<lparr>io_connection := io\<rparr>;
               output' = output @ buf
           in case search_any re_search pattern_list re_flags output' of
                Inl e \<Rightarrow> (Inl e, s')
              | Inr True \<Rightarrow> (Inr (normalize_linefeeds output'), s')
              | Inr False \<Rightarrow> read_until_loop re_search pattern_list re_flags output' s'))"
  by pat_completeness auto
termination
  by (relation "measure (\<lambda>(re_search, pattern_list, re_flags, output, s).
        length (inbox (io_connection s)))")
     (auto simp: io_read_def split: list.splits)

text \<open>\<^verbatim>\<open>_read_until\<close>.\<close>

definition read_until ::
  "re_search_fun \<Rightarrow> pyval list option \<Rightarrow> re_flag set \<Rightarrow> device_stream \<Rightarrow> string outcome" where
  "read_until re_search pattern_list re_flags s =
     (case pattern_list of
        None \<Rightarrow> (Inl ValueError, s)
      | Some pl \<Rightarrow> read_until_loop re_search pl re_flags [] s)"

text \<open>
  The head of \<^verbatim>\<open>send_commands\<close>: the pattern list built from the \<^verbatim>\<open>patterns\<close> argument
  and the current prompt pattern.
\<close>

definition pattern_list_of :: "pyval \<Rightarrow> string \<Rightarrow> error + pyval list" where
  "pattern_list_of patterns cur =
     (if \<not> truthy patterns then Inr [PyStr cur]
      else if is_str patterns then Inr [patterns, PyStr cur]
      else case patterns of
             PyList ps \<Rightarrow> Inr (ps @ [PyStr cur])
           | _ \<Rightarrow> Inl ValueError)"

text \<open>
  What \<^verbatim>\<open>for cmd in cmd_list\<close> runs over, after a single string has been wrapped into a
  list; a value that cannot be iterated raises \<^verbatim>\<open>TypeError\<close>.
\<close>

definition cmd_iter :: "pyval \<Rightarrow> error + pyval list" where
  "cmd_iter cmd_list =
     (case cmd_list of
        PyStr c \<Rightarrow> Inr [PyStr c]
      | PyList cs \<Rightarrow> Inr cs
      | PyTuple cs \<Rightarrow> Inr cs
      | _ \<Rightarrow> Inl TypeError)"

text \<open>
  The \<^verbatim>\<open>for cmd in cmd_list\<close> loop of \<^verbatim>\<open>send_commands\<close>, with \<open>output\<close> as accumulator.
  Where \<^verbatim>\<open>_strip_command(cmd, buf)\<close> is reached, \<open>cmd\<close> is a string (\<^verbatim>\<open>_send\<close> has
  raised otherwise), and it is the string of the list, not the normalized one that
  \<^verbatim>\<open>_send\<close> wrote.
\<close>

fun str_of :: "pyval \<Rightarrow> string" where
  "str_of (PyStr c) = c"
| "str_of _ = []"

fun send_loop ::
  "re_search_fun \<Rightarrow> pyval list \<Rightarrow> re_flag set \<Rightarrow> bool \<Rightarrow> bool \<Rightarrow> pyval list \<Rightarrow> string
     \<Rightarrow> device_stream \<Rightarrow> string outcome" where
  "send_loop re_search pattern_list re_flags strip_cmd strip_pr [] output s = (Inr output, s)"
| "send_loop re_search pattern_list re_flags strip_cmd strip_pr (cmd # cmds) output s =
     (case send cmd s of
        (Inl e, s1) \<Rightarrow> (Inl e, s1)
      | (Inr _, s1) \<Rightarrow>
          (case read_until re_search (Some pattern_list) re_flags s1 of
             (Inl e, s2) \<Rightarrow> (Inl e, s2)
           | (Inr buf, s2) \<Rightarrow>
               (let buf1 = (if strip_cmd
                            then strip_command (str_of cmd) buf
                            else buf);
                    buf2 = (if strip_pr then strip_prompt buf1 else buf1)
                in send_loop re_search pattern_list re_flags strip_cmd strip_pr cmds
                     (output @ buf2) s2)))"

text \<open>\<^verbatim>\<open>send_commands(cmd_list, strip_command, strip_prompt, patterns, re_flags)\<close>.\<close>

definition send_commands ::
  "re_search_fun \<Rightarrow> pyval \<Rightarrow> bool \<Rightarrow> bool \<Rightarrow> pyval \<Rightarrow> re_flag set \<Rightarrow> device_stream
     \<Rightarrow> string outcome" where
  "send_commands re_search cmd_list strip_cmd strip_pr patterns re_flags s =
     (case pattern_list_of patterns (prompt_pattern s) of
        Inl e \<Rightarrow> (Inl e, s)
      | Inr pattern_list \<Rightarrow>
          (case cmd_iter cmd_list of
             Inl e \<Rightarrow> (Inl e, s)
           | Inr cmds \<Rightarrow>
               send_loop re_search pattern_list re_flags strip_cmd strip_pr cmds [] s))"

text \<open>The f-string \<^verbatim>\<open>rf"({p}).*$.*({p})$"\<close> of \<^verbatim>\<open>_find_prompt\<close>.\<close>

definition two_line_pattern :: "string \<Rightarrow> string" where
  "two_line_pattern p = ''('' @ p @ '').*$.*('' @ p @ '')$''"

text \<open>
  \<^verbatim>\<open>_find_prompt\<close>: the pattern becomes the two-line pattern, a bare newline is sent
  with both strip options off and the flags \<^verbatim>\<open>re.MULTILINE | re.DOTALL\<close>, and the prompt
  setter's answer to the raw output becomes the pattern.
\<close>

definition find_prompt :: "re_search_fun \<Rightarrow> device_stream \<Rightarrow> string outcome" where
  "find_prompt re_search s =
     (let p = prompt_pattern s;
          s0 = s\<lparr>prompt_pattern := two_line_pattern p\<rparr>
      in case send_commands re_search (PyStr [LF]) False False PyNone {MULTILINE, DOTALL} s0 of
           (Inl e, s1) \<Rightarrow> (Inl e, s1)
         | (Inr raw_prompt, s1) \<Rightarrow>
             (Inr raw_prompt, s1\<lparr>prompt_pattern := set_prompt_func s1 raw_prompt\<rparr>))"

text \<open>\<^verbatim>\<open>_session_preparation\<close>: \<^verbatim>\<open>send_commands(self._nopage_cmd)\<close> with the defaults.\<close>

definition session_preparation :: "re_search_fun \<Rightarrow> device_stream \<Rightarrow> string outcome" where
  "session_preparation re_search s =
     send_commands re_search (nopage_cmd s) True True PyNone {} s"

text \<open>\<^verbatim>\<open>connect\<close>.\<close>

definition connect :: "re_search_fun \<Rightarrow> device_stream \<Rightarrow> string outcome" where
  "connect re_search s =
     (let s0 = s\<lparr>io_connection := io_connect (io_connection s)\<rparr>
      in case find_prompt re_search s0 of
           (Inl e, s1) \<Rightarrow> (Inl e, s1)
         | (Inr buf, s1) \<Rightarrow>
             (case session_preparation re_search s1 of
                (Inl e, s2) \<Rightarrow> (Inl e, s2)
              | (Inr buf2, s2) \<Rightarrow> (Inr (buf @ buf2), s2)))"

text \<open>\<^verbatim>\<open>disconnect\<close>.\<close>

definition disconnect :: "device_stream \<Rightarrow> unit outcome" where
  "disconnect s = (Inr (), s\<lparr>io_connection := io_disconnect (io_connection s)\<rparr>)"

section \<open>A fragment of Python's regular expressions\<close>

text \<open>
  The meaning of the patterns that the class itself builds: literal characters, escaped
  characters, \<^verbatim>\<open>.\<close>, \<^verbatim>\<open>$\<close>, \<^verbatim>\<open>*\<close>, alternation and groups, under the flags
  \<^verbatim>\<open>re.MULTILINE\<close> and \<^verbatim>\<open>re.DOTALL\<close>. Everything else is left without a meaning
  (\<open>None\<close> from the parser).
\<close>

datatype rx = Chr char | Dot | Eol | Eps | Cat rx rx | Alt rx rx | Star rx

text \<open>A sequence of atoms, and an alternation of at least one branch.\<close>

fun mk_cat :: "rx list \<Rightarrow> rx" where
  "mk_cat [] = Eps"
| "mk_cat (a # as) = Cat a (mk_cat as)"

fun mk_alt :: "rx list \<Rightarrow> rx" where
  "mk_alt [] = Eps"
| "mk_alt [r] = r"
| "mk_alt (r # q # rs) = Alt r (mk_alt (q # rs))"

text \<open>
  One nesting level while parsing: the finished branches and the atoms of the branch
  being read, both newest first.
\<close>

type_synonym rx_frame = "rx list \<times> rx list"

fun close_frame :: "rx_frame \<Rightarrow> rx" where
  "close_frame (alts, cur) = mk_alt (rev (mk_cat (rev cur) # alts))"

definition is_alnum :: "char \<Rightarrow> bool" where
  "is_alnum c =
     (let n = (of_char c :: nat)
      in (48 \<le> n \<and> n \<le> 57) \<or> (65 \<le> n \<and> n \<le> 90) \<or> (97 \<le> n \<and> n \<le> 122))"

text \<open>
  The parser reads the pattern once from the left. A backslash makes the next character
  literal unless that is a letter or digit (a class or a back reference: not in the
  fragment); \<^verbatim>\<open>^ + ? { } [ ]\<close>, a \<^verbatim>\<open>*\<close> with nothing to repeat and unbalanced
  parentheses have no meaning here.
\<close>

fun rx_parse_loop :: "string \<Rightarrow> rx_frame \<Rightarrow> rx_frame list \<Rightarrow> rx option" where
  "rx_parse_loop [] frame stack = (if stack = [] then Some (close_frame frame) else None)"
| "rx_parse_loop (c # cs) (alts, cur) stack =
     (if c = CHR 0x5C then
        (case cs of
           [] \<Rightarrow> None
         | d # ds \<Rightarrow>
             if is_alnum d then None else rx_parse_loop ds (alts, Chr d # cur) stack)
      else if c = CHR ''('' then rx_parse_loop cs ([], []) ((alts, cur) # stack)
      else if c = CHR '')'' then
        (case stack of
           [] \<Rightarrow> None
         | (palts, pcur) # rest \<Rightarrow>
             rx_parse_loop cs (palts, close_frame (alts, cur) # pcur) rest)
      else if c = CHR ''|'' then rx_parse_loop cs (mk_cat (rev cur) # alts, []) stack
      else if c = CHR ''*'' then
        (case cur of
           [] \<Rightarrow> None
         | Star a # before \<Rightarrow> None
         | a # before \<Rightarrow> rx_parse_loop cs (alts, Star a # before) stack)
      else if c = CHR ''.'' then rx_parse_loop cs (alts, Dot # cur) stack
      else if c = CHR ''$'' then rx_parse_loop cs (alts, Eol # cur) stack
      else if c \<in> {CHR ''^'', CHR ''+'', CHR ''?'', CHR ''{'', CHR ''}'', CHR ''['', CHR '']''}
        then None
      else rx_parse_loop cs (alts, Chr c # cur) stack)"

definition rx_parse :: "string \<Rightarrow> rx option" where
  "rx_parse pattern = rx_parse_loop pattern ([], []) []"

text \<open>
  Matching at the start of a text: the set of texts that can remain behind a match.
  \<open>ml\<close> is \<^verbatim>\<open>re.MULTILINE\<close> (\<^verbatim>\<open>$\<close> also matches in front of any line feed, not only at
  the end and in front of a final line feed), \<open>da\<close> is \<^verbatim>\<open>re.DOTALL\<close> (\<^verbatim>\<open>.\<close> also
  matches a line feed). A repetition can shorten the text at most as often as it is long.
\<close>

fun rx_rests :: "bool \<Rightarrow> bool \<Rightarrow> rx \<Rightarrow> string \<Rightarrow> string set" where
  "rx_rests ml da (Chr c) t = (case t of [] \<Rightarrow> {} | x # xs \<Rightarrow> if x = c then {xs} else {})"
| "rx_rests ml da Dot t = (case t of [] \<Rightarrow> {} | x # xs \<Rightarrow> if da \<or> x \<noteq> LF then {xs} else {})"
| "rx_rests ml da Eol t =
     (if t = [] \<or> t = [LF] \<or> (ml \<and> take 1 t = [LF]) then {t} else {})"
| "rx_rests ml da Eps t = {t}"
| "rx_rests ml da (Cat a b) t = (\<Union>u \<in> rx_rests ml da a t. rx_rests ml da b u)"
| "rx_rests ml da (Alt a b) t = rx_rests ml da a t \<union> rx_rests ml da b t"
| "rx_rests ml da (Star a) t =
     ((\<lambda>S. S \<union> (\<Union>u \<in> S. rx_rests ml da a u)) ^^ length t) {t}"

text \<open>\<^verbatim>\<open>search\<close>: a match may start at any position of the text, the end included.\<close>

definition rx_search :: "bool \<Rightarrow> bool \<Rightarrow> rx \<Rightarrow> string \<Rightarrow> bool" where
  "rx_search ml da r t = (\<exists>u \<in> set (suffixes t). rx_rests ml da r u \<noteq> {})"

text \<open>
  \<^verbatim>\<open>re.search\<close> on this fragment: a pattern that is not a string raises \<^verbatim>\<open>TypeError\<close>.
\<close>

definition py_re_search :: re_search_fun where
  "py_re_search pattern text re_flags =
     (case pattern of
        PyStr p \<Rightarrow>
          (if re_flags \<subseteq> {MULTILINE, DOTALL} then
             (case rx_parse p of
                None \<Rightarrow> Inl Unsupported
              | Some r \<Rightarrow> Inr (rx_search (MULTILINE \<in> re_flags) (DOTALL \<in> re_flags) r text))
           else Inl Unsupported)
      | _ \<Rightarrow> Inl TypeError)"

section \<open>Vocabulary for the properties\<close>

text \<open>
  The session after some transport calls: \<open>n\<close> chunks have left the script and the
  events \<open>evs\<close> have been recorded; nothing else has changed.
\<close>

definition after_io :: "io_event list \<Rightarrow> nat \<Rightarrow> device_stream \<Rightarrow> device_stream" where
  "after_io evs n s =
     s\<lparr>io_connection := (io_connection s)
          \<lparr>inbox := drop n (inbox (io_connection s)),
           trace := trace (io_connection s) @ evs\<rparr>\<rparr>"

text \<open>
  The chunks of one read-until call, started with the buffer \<open>output\<close>: there is at least
  one, a pattern of the list matches once the last chunk is appended, and none matched
  (nor did the search raise) after any earlier chunk.
\<close>

definition first_match ::
  "re_search_fun \<Rightarrow> pyval list \<Rightarrow> re_flag set \<Rightarrow> string \<Rightarrow> string list \<Rightarrow> bool" where
  "first_match re_search pattern_list re_flags output chunks \<longleftrightarrow>
     chunks \<noteq> [] \<and>
     search_any re_search pattern_list re_flags (output @ concat chunks) = Inr True \<and>
     (\<forall>k \<in> {1..<length chunks}.
        search_any re_search pattern_list re_flags (output @ concat (take k chunks))
          = Inr False)"

text \<open>The transport events of one command: its write, then the reads of its chunks.\<close>

definition exchange :: "string \<Rightarrow> string list \<Rightarrow> io_event list" where
  "exchange cmd chunks = Sent (normalize_cmd cmd) # map Received chunks"

text \<open>The writes among the events.\<close>

fun is_sent :: "io_event \<Rightarrow> bool" where
  "is_sent (Sent t) = True"
| "is_sent _ = False"

section \<open>Concrete sessions\<close>

text \<open>
  A scripted device for the examples: the chunks it will deliver, the current prompt
  pattern and the pagination command. Its prompt setter takes the last line of the raw
  exchange literally.
\<close>

definition last_line_setter :: "string \<Rightarrow> string" where
  "last_line_setter raw = re_escape (last (split_nl raw))"

definition stub_io :: "string list \<Rightarrow> IOConnection" where
  "stub_io chunks = \<lparr>host = ''192.0.2.1'', inbox = chunks, trace = []\<rparr>"

definition stub_session :: "string list \<Rightarrow> string \<Rightarrow> pyval \<Rightarrow> device_stream" where
  "stub_session chunks pattern nopage =
     \<lparr>io_connection = stub_io chunks, set_prompt_func = last_line_setter,
      prompt_pattern = pattern, nopage_cmd = nopage\<rparr>"

text \<open>Two commands against a device that answers each with its echo, output and prompt.\<close>

definition two_command_session :: device_stream where
  "two_command_session =
     stub_session
       [''show ip'' @ [LF], ''10.0.0.1'' @ [LF] @ ''Router>'',
        ''show run'' @ [LF] @ ''hostname r1'' @ [LF] @ ''Router>'']
       ''Router>'' PyNone"

definition two_commands :: pyval where
  "two_commands = PyList [PyStr ''show ip'', PyStr ''show run'']"

text \<open>
  A device with the prompt \<^verbatim>\<open>host#\<close>: a banner and the prompt are waiting, and the probe's
  newline is answered with a line break and the prompt again.
\<close>

definition hash_device :: device_stream where
  "hash_device =
     stub_session [''Welcome'' @ [CR, LF] @ ''host#'', [CR, LF] @ ''host#'']
       (re_escape ''#'') PyNone"

section \<open>The shape of the transport traffic\<close>

declare read_until_loop.simps [simp del]

lemma after_io_Nil: "after_io [] 0 s = s"
  by (simp add: after_io_def)

lemma after_io_after_io:
  "after_io e2 n2 (after_io e1 n1 s) = after_io (e1 @ e2) (n1 + n2) s"
  by (simp add: after_io_def add.commute)

lemma after_io_fields:
  "prompt_pattern (after_io evs n s) = prompt_pattern s"
  "set_prompt_func (after_io evs n s) = set_prompt_func s"
  "nopage_cmd (after_io evs n s) = nopage_cmd s"
  "trace (io_connection (after_io evs n s)) = trace (io_connection s) @ evs"
  "inbox (io_connection (after_io evs n s)) = drop n (inbox (io_connection s))"
  "host (io_connection (after_io evs n s)) = host (io_connection s)"
  by (simp_all add: after_io_def)

lemma after_io_same: "after_io evs n s = s \<Longrightarrow> evs = []"
proof -
  assume "after_io evs n s = s"
  then have "trace (io_connection (after_io evs n s)) = trace (io_connection s)" by simp
  then show ?thesis by (simp add: after_io_fields)
qed

lemma first_match_single:
  "search_any rx pl fl (out @ c) = Inr True \<Longrightarrow> first_match rx pl fl out [c]"
  by (simp add: first_match_def)

lemma first_match_Cons:
  assumes "search_any rx pl fl (out @ c) = Inr False" "first_match rx pl fl (out @ c) cs"
  shows "first_match rx pl fl out (c # cs)"
proof -
  have "search_any rx pl fl (out @ concat (take k (c # cs))) = Inr False"
    if "k \<in> {1..<length (c # cs)}" for k
  proof (cases k)
    case 0 then show ?thesis using that by simp
  next
    case (Suc j)
    show ?thesis
    proof (cases j)
      case 0 then show ?thesis using Suc assms(1) by simp
    next
      case (Suc i)
      then have "j \<in> {1..<length cs}" using that \<open>k = Suc j\<close> by auto
      then show ?thesis using assms(2) \<open>k = Suc j\<close> by (simp add: first_match_def)
    qed
  qed
  then show ?thesis using assms by (simp add: first_match_def)
qed

lemma io_read_Cons:
  "inbox (io_connection s) = c # rest \<Longrightarrow>
   io_read (io_connection s) = (Inr c, io_connection (after_io [Received c] 1 s))"
  by (simp add: io_read_def after_io_def)

lemma io_read_Nil:
  "inbox (io_connection s) = [] \<Longrightarrow> io_read (io_connection s) = (Inl IOError, io_connection s)"
  by (simp add: io_read_def)

lemma upd_after_io: "s\<lparr>io_connection := io_connection (after_io evs n s)\<rparr> = after_io evs n s"
  by (simp add: after_io_def)

lemma read_until_loop_shape:
  "read_until_loop rx pl fl out s = (r, s') \<Longrightarrow>
   \<exists>chunks. prefix chunks (inbox (io_connection s)) \<and>
     s' = after_io (map Received chunks) (length chunks) s \<and>
     (\<forall>buf. r = Inr buf \<longrightarrow>
        first_match rx pl fl out chunks \<and> buf = normalize_linefeeds (out @ concat chunks))"
proof (induction rx pl fl out s arbitrary: r s' rule: read_until_loop.induct)
  case (1 rx pl fl out s)
  show ?case
  proof (cases "inbox (io_connection s)")
    case Nil
    then have "r = Inl IOError" "s' = s"
      using "1.prems" by (simp_all add: read_until_loop.simps[of rx pl fl out s] io_read_Nil)
    then show ?thesis by (intro exI[of _ "[]"]) (simp add: after_io_Nil)
  next
    case (Cons c rest)
    define s1 where "s1 = after_io [Received c] 1 s"
    have rd: "io_read (io_connection s) = (Inr c, io_connection s1)"
      unfolding s1_def by (rule io_read_Cons[OF Cons])
    have s1: "s\<lparr>io_connection := io_connection s1\<rparr> = s1"
      unfolding s1_def by (rule upd_after_io)
    have ar: "after_io (map Received cs) (length cs) s1
                = after_io (map Received (c # cs)) (length (c # cs)) s" for cs
      unfolding s1_def by (simp add: after_io_after_io)
    have inb: "inbox (io_connection s1) = rest" by (simp add: s1_def after_io_fields Cons)
    show ?thesis
    proof (cases "search_any rx pl fl (out @ c)")
      case (Inl e)
      then have "r = Inl e" "s' = s1"
        using "1.prems" rd s1 by (simp_all add: read_until_loop.simps[of rx pl fl out s])
      then show ?thesis using ar[of "[]"] Cons
        by (intro exI[of _ "[c]"]) (simp add: after_io_Nil)
    next
      case (Inr b)
      show ?thesis
      proof (cases b)
        case True
        then have "r = Inr (normalize_linefeeds (out @ c))" "s' = s1"
          using "1.prems" rd s1 Inr by (simp_all add: read_until_loop.simps[of rx pl fl out s])
        then show ?thesis using ar[of "[]"] Cons Inr True
          by (intro exI[of _ "[c]"]) (simp add: after_io_Nil first_match_single)
      next
        case False
        then have rec: "read_until_loop rx pl fl (out @ c) s1 = (r, s')"
          using "1.prems" rd s1 Inr by (simp add: read_until_loop.simps[of rx pl fl out s])
        have "\<exists>chunks. prefix chunks (inbox (io_connection s1)) \<and>
            s' = after_io (map Received chunks) (length chunks) s1 \<and>
            (\<forall>buf. r = Inr buf \<longrightarrow> first_match rx pl fl (out @ c) chunks \<and>
               buf = normalize_linefeeds ((out @ c) @ concat chunks))"
          using "1.IH"[OF rd[symmetric] refl _ _ _ _ rec] s1 Inr False by simp
        then obtain cs where cs: "prefix cs rest"
          "s' = after_io (map Received cs) (length cs) s1"
          "\<forall>buf. r = Inr buf \<longrightarrow> first_match rx pl fl (out @ c) cs \<and>
              buf = normalize_linefeeds ((out @ c) @ concat cs)"
          using inb by auto
        show ?thesis
          using cs Cons ar[of cs] Inr False
          by (intro exI[of _ "c # cs"]) (auto intro: first_match_Cons)
      qed
    qed
  qed
qed

lemma send_str: "send (PyStr c) s = (Inr (), after_io [Sent (normalize_cmd c)] 0 s)"
  by (simp add: send_def io_send_def after_io_def)

lemma send_fail: "\<not> is_str cmd \<Longrightarrow> send cmd s = (Inl AttributeError, s)"
  by (cases cmd) (simp_all add: send_def)

text \<open>One command: its write, its reads, and what the for loop does next.\<close>

lemma send_loop_step:
  assumes "send_loop rx pl fl sc sp (PyStr c # cmds) out s = (r, s')"
  obtains (Failed) chunks e where
      "prefix chunks (inbox (io_connection s))"
      "r = Inl e"
      "s' = after_io (exchange c chunks) (length chunks) s"
    | (Done) chunks buf where
      "prefix chunks (inbox (io_connection s))"
      "first_match rx pl fl [] chunks"
      "buf = normalize_linefeeds (concat chunks)"
      "send_loop rx pl fl sc sp cmds
          (out @ (if sp then strip_prompt (if sc then strip_command c buf else buf)
                  else (if sc then strip_command c buf else buf)))
          (after_io (exchange c chunks) (length chunks) s) = (r, s')"
proof -
  define s1 where "s1 = after_io [Sent (normalize_cmd c)] 0 s"
  obtain r1 s2 where ru: "read_until_loop rx pl fl [] s1 = (r1, s2)"
    by (cases "read_until_loop rx pl fl [] s1")
  from read_until_loop_shape[OF ru] obtain chunks where ch:
    "prefix chunks (inbox (io_connection s1))"
    "s2 = after_io (map Received chunks) (length chunks) s1"
    "\<forall>buf. r1 = Inr buf \<longrightarrow> first_match rx pl fl [] chunks \<and>
        buf = normalize_linefeeds ([] @ concat chunks)"
    by blast
  have s2: "s2 = after_io (exchange c chunks) (length chunks) s"
    using ch(2) by (simp add: s1_def after_io_after_io exchange_def)
  have pre: "prefix chunks (inbox (io_connection s))"
    using ch(1) by (simp add: s1_def after_io_fields)
  have ru': "read_until rx (Some pl) fl s1 = (r1, s2)"
    using ru by (simp add: read_until_def)
  show thesis
  proof (cases r1)
    case (Inl e)
    then have "r = Inl e" "s' = s2"
      using assms by (simp_all add: send_str s1_def[symmetric] ru')
    then show thesis using Failed[OF pre] s2 by simp
  next
    case (Inr buf)
    then have "send_loop rx pl fl sc sp cmds
          (out @ (if sp then strip_prompt (if sc then strip_command c buf else buf)
                  else (if sc then strip_command c buf else buf))) s2 = (r, s')"
      using assms by (simp add: send_str s1_def[symmetric] ru' Let_def split del: if_split cong: if_cong)
    then show thesis using Done[OF pre, of buf] ch(3) Inr s2 by (simp split del: if_split)
  qed
qed

lemma send_loop_shape:
  "send_loop rx pl fl sc sp (map PyStr cmds) out s = (r, s') \<Longrightarrow>
   \<exists>chunkss. length chunkss \<le> length cmds \<and>
     (isl r \<longrightarrow> chunkss \<noteq> []) \<and> (\<not> isl r \<longrightarrow> length chunkss = length cmds) \<and>
     prefix (concat chunkss) (inbox (io_connection s)) \<and>
     s' = after_io (concat (map2 exchange cmds chunkss)) (length (concat chunkss)) s \<and>
     (\<forall>chunks \<in> set (if isl r then butlast chunkss else chunkss). first_match rx pl fl [] chunks)"
proof (induction cmds arbitrary: out s)
  case Nil
  then show ?case by (intro exI[of _ "[]"]) (auto simp: after_io_Nil)
next
  case (Cons c cmds)
  from Cons.prems have run: "send_loop rx pl fl sc sp (PyStr c # map PyStr cmds) out s = (r, s')"
    by simp
  show ?case
    using run
  proof (cases rule: send_loop_step)
    case (Failed chunks e)
    then show ?thesis by (intro exI[of _ "[chunks]"]) simp
  next
    case (Done chunks buf)
    define s2 where "s2 = after_io (exchange c chunks) (length chunks) s"
    from Cons.IH[OF Done(4)] obtain css where css: "length css \<le> length cmds"
      "isl r \<longrightarrow> css \<noteq> []" "\<not> isl r \<longrightarrow> length css = length cmds"
      "prefix (concat css) (inbox (io_connection s2))"
      "s' = after_io (concat (map2 exchange cmds css)) (length (concat css)) s2"
      "\<forall>chunks \<in> set (if isl r then butlast css else css). first_match rx pl fl [] chunks"
      unfolding s2_def by blast
    have p: "prefix (concat (chunks # css)) (inbox (io_connection s))"
    proof -
      from Done(1) obtain rest where rest: "inbox (io_connection s) = chunks @ rest"
        by (auto simp: prefix_def)
      then have "inbox (io_connection s2) = rest" by (simp add: s2_def after_io_fields)
      with css(4) rest show ?thesis by simp
    qed
    have s': "s' = after_io (concat (map2 exchange (c # cmds) (chunks # css)))
                     (length (concat (chunks # css))) s"
      using css(5) by (simp add: s2_def after_io_after_io)
    have fmall: "\<forall>x \<in> set (if isl r then butlast (chunks # css) else chunks # css).
                   first_match rx pl fl [] x"
      using css(2,6) Done(2) by auto
    show ?thesis
      using css(1,2,3) p s' fmall by (intro exI[of _ "chunks # css"]) simp
  qed
qed

section \<open>The sanitizer\<close>

lemma split_nl_no_newline: "LF \<notin> set s \<Longrightarrow> split_nl s = [s]"
  by (induction s) auto

text \<open>
  Claim C10. An output without a line feed is a single line, which \<^verbatim>\<open>_strip_prompt\<close>
  takes for the prompt line: the result is the empty string.
\<close>

theorem strip_prompt_single_line:
  "LF \<notin> set output \<Longrightarrow> strip_prompt output = []"
  by (simp add: strip_prompt_def split_nl_no_newline)

theorem strip_prompt_single_line_witness:
  "LF \<notin> set ''Router>'' \<and> strip_prompt ''Router>'' = []"
  using strip_prompt_single_line [of "''Router>''"] by simp

lemma nl_id: "\<not> has_mixed_ending s \<Longrightarrow> normalize_linefeeds s = s"
  by (induction s rule: normalize_linefeeds.induct) (auto split: if_splits)

lemma nl_len: "length (normalize_linefeeds s) \<le> length s"
  by (induction s rule: normalize_linefeeds.induct) auto

lemma nl_short: "has_mixed_ending s \<Longrightarrow> length (normalize_linefeeds s) < length s"
proof (induction s rule: normalize_linefeeds.induct)
  case (1 c d e cs)
  have a: "length (normalize_linefeeds cs) \<le> length cs"
    and b: "length (normalize_linefeeds (e # cs)) \<le> Suc (length cs)"
    using nl_len[of cs] nl_len[of "e # cs"] by simp_all
  show ?case
  proof (cases "(c = CR \<and> d = CR \<and> e = LF) \<or> (c = CR \<and> d = LF) \<or> (c = LF \<and> d = CR)")
    case True
    then show ?thesis using a b by (auto simp: le_imp_less_Suc)
  next
    case False
    then have "has_mixed_ending (d # e # cs)" using "1.prems" by auto
    then have "length (normalize_linefeeds (d # e # cs)) < length (d # e # cs)"
      using False "1.IH"(4) by blast
    then show ?thesis using False by auto
  qed
qed auto

lemma nl_fixpoint: "normalize_linefeeds s = s \<longleftrightarrow> \<not> has_mixed_ending s"
  using nl_id[of s] nl_short[of s] by (cases "has_mixed_ending s") auto

lemma nl_crlf: "normalize_linefeeds (CR # LF # ys) = LF # normalize_linefeeds ys"
  by (cases ys) auto

lemma nl_lfcr: "normalize_linefeeds (LF # CR # ys) = LF # normalize_linefeeds ys"
  by (cases ys) auto

lemma nl_plain:
  "c \<noteq> CR \<Longrightarrow> c \<noteq> LF \<Longrightarrow> normalize_linefeeds (c # ys) = c # normalize_linefeeds ys"
  by (cases ys rule: normalize_linefeeds.cases) auto

lemma nl_append:
  "xs = [] \<or> (last xs \<noteq> CR \<and> last xs \<noteq> LF) \<Longrightarrow>
   normalize_linefeeds (xs @ zs) = normalize_linefeeds xs @ normalize_linefeeds zs"
proof (induction xs rule: normalize_linefeeds.induct)
  case (1 c d e cs)
  then show ?case by (cases "cs = []") auto
next
  case (2 c d)
  then show ?case by (cases zs) (auto simp: nl_plain)
next
  case (3 c)
  then show ?case by (simp add: nl_plain)
next
  case 4
  then show ?case by simp
qed

text \<open>
  Claim C5, as the code has it. The substitution is one pass from the left. A variant
  (CR CR LF, CR LF or LF CR) that starts the text or follows a character other than CR and
  LF becomes one line feed, and the text on either side is normalized on its own. The
  function leaves a text as it is exactly when no CR stands next to an LF in it.
  It is not idempotent on every input: a second application changes nothing exactly when
  the first result has no CR next to an LF.
\<close>

theorem normalize_linefeeds_single_pass:
  "(xs = [] \<or> (last xs \<noteq> CR \<and> last xs \<noteq> LF) \<longrightarrow>
      normalize_linefeeds (xs @ [CR, CR, LF] @ ys) = normalize_linefeeds xs @ LF # normalize_linefeeds ys \<and>
      normalize_linefeeds (xs @ [CR, LF] @ ys) = normalize_linefeeds xs @ LF # normalize_linefeeds ys \<and>
      normalize_linefeeds (xs @ [LF, CR] @ ys) = normalize_linefeeds xs @ LF # normalize_linefeeds ys) \<and>
   (normalize_linefeeds s = s \<longleftrightarrow> \<not> has_mixed_ending s) \<and>
   (normalize_linefeeds (normalize_linefeeds s) = normalize_linefeeds s
      \<longleftrightarrow> \<not> has_mixed_ending (normalize_linefeeds s))"
  using nl_fixpoint[of s] nl_fixpoint[of "normalize_linefeeds s"]
  by (simp add: nl_append nl_crlf nl_lfcr)

theorem normalize_linefeeds_single_pass_witness:
  "normalize_linefeeds (''a'' @ [CR, CR, LF] @ ''b'') = normalize_linefeeds ''a'' @ LF # normalize_linefeeds ''b'' \<and>
   normalize_linefeeds (''a'' @ [CR, LF] @ ''b'') = normalize_linefeeds ''a'' @ LF # normalize_linefeeds ''b'' \<and>
   normalize_linefeeds (''a'' @ [LF, CR] @ ''b'') = normalize_linefeeds ''a'' @ LF # normalize_linefeeds ''b'' \<and>
   \<not> has_mixed_ending (''a'' @ [LF] @ ''b'') \<and>
   normalize_linefeeds (''a'' @ [LF] @ ''b'') = ''a'' @ [LF] @ ''b'' \<and>
   normalize_linefeeds (normalize_linefeeds (''a'' @ [LF] @ ''b'')) = normalize_linefeeds (''a'' @ [LF] @ ''b'')"
  using normalize_linefeeds_single_pass [of "''a''" "''b''" "''a'' @ [LF] @ ''b''"]
  by simp

text \<open>
  The input CR LF CR: the first pass gives LF CR, the second gives LF.
\<close>

theorem normalize_linefeeds_not_idempotent:
  "normalize_linefeeds (normalize_linefeeds [CR, LF, CR]) \<noteq> normalize_linefeeds [CR, LF, CR]"
  by simp

section \<open>The pattern list\<close>

text \<open>
  Claim C3, as the code has it. The pattern list handed to the reader is the current
  pattern alone when \<^verbatim>\<open>patterns\<close> is \<^verbatim>\<open>None\<close>, the string and then the current pattern
  when it is a non-empty string, and the list followed by the current pattern when it is a
  list (of strings in particular). The empty string is falsy and counts as absent: the
  list is the current pattern alone.
\<close>

theorem pattern_list_of_cases:
  "pattern_list_of PyNone cur = Inr [PyStr cur] \<and>
   pattern_list_of (PyStr []) cur = Inr [PyStr cur] \<and>
   (p \<noteq> [] \<longrightarrow> pattern_list_of (PyStr p) cur = Inr [PyStr p, PyStr cur]) \<and>
   pattern_list_of (PyList ps) cur = Inr (ps @ [PyStr cur]) \<and>
   pattern_list_of (PyList (map PyStr strs)) cur = Inr (map PyStr strs @ [PyStr cur])"
  by (simp add: pattern_list_of_def)

theorem pattern_list_of_cases_witness:
  "''--More--'' \<noteq> [] \<and>
   pattern_list_of (PyStr ''--More--'') ''Router>'' = Inr [PyStr ''--More--'', PyStr ''Router>'']"
  using pattern_list_of_cases [of "''Router>''" "''--More--''"] by simp

text \<open>The empty string as \<^verbatim>\<open>patterns\<close> does not give a two-element list.\<close>

theorem pattern_list_of_empty_string:
  "pattern_list_of (PyStr []) ''Router>'' \<noteq> Inr [PyStr [], PyStr ''Router>'']"
  by (simp add: pattern_list_of_def)

lemma pattern_list_of_error:
  "pattern_list_of patterns cur = Inl e \<longleftrightarrow>
     e = ValueError \<and> truthy patterns \<and> \<not> is_str patterns \<and> \<not> is_list patterns"
  by (cases patterns) (auto simp: pattern_list_of_def)

lemma send_loop_keeps_fields:
  "send_loop rx pl fl sc sp cmds out s = (r, s') \<Longrightarrow>
   \<exists>evs n. s' = after_io evs n s \<and> (evs = [] \<longrightarrow> r = Inr out \<or> r = Inl AttributeError)"
proof (induction cmds arbitrary: out s)
  case Nil
  then show ?case by (intro exI[of _ "[]"] exI[of _ 0]) (simp add: after_io_Nil)
next
  case (Cons cmd cmds)
  show ?case
  proof (cases "is_str cmd")
    case False
    then have "r = Inl AttributeError" "s' = s"
      using Cons.prems by (simp_all add: send_fail)
    then show ?thesis by (intro exI[of _ "[]"] exI[of _ 0]) (simp add: after_io_Nil)
  next
    case True
    then obtain c where c: "cmd = PyStr c" by (cases cmd) simp_all
    have prem: "send_loop rx pl fl sc sp (PyStr c # cmds) out s = (r, s')"
      using Cons.prems c by simp
    show ?thesis
      using prem
    proof (cases rule: send_loop_step)
      case (Failed chunks e)
      then show ?thesis
        by (intro exI[of _ "exchange c chunks"] exI[of _ "length chunks"]) (simp add: exchange_def)
    next
      case (Done chunks buf)
      from Cons.IH[OF Done(4)] obtain evs n where
        "s' = after_io evs n (after_io (exchange c chunks) (length chunks) s)" by blast
      then show ?thesis
        by (intro exI[of _ "exchange c chunks @ evs"] exI[of _ "length chunks + n"])
           (simp add: after_io_after_io exchange_def)
    qed
  qed
qed

lemma send_commands_keeps_fields:
  assumes "send_commands rx cmd_list sc sp patterns fl s = (r, s')"
  shows "\<exists>evs n. s' = after_io evs n s"
proof (cases "pattern_list_of patterns (prompt_pattern s)")
  case (Inl e)
  then have "s' = s" using assms by (simp add: send_commands_def)
  then show ?thesis by (intro exI[of _ "[]"] exI[of _ 0]) (simp add: after_io_Nil)
next
  case (Inr pl)
  show ?thesis
  proof (cases "cmd_iter cmd_list")
    case (Inl e)
    then have "s' = s" using assms Inr by (simp add: send_commands_def)
    then show ?thesis by (intro exI[of _ "[]"] exI[of _ 0]) (simp add: after_io_Nil)
  next
    case cmds: (Inr cmds)
    then have "send_loop rx pl fl sc sp cmds [] s = (r, s')"
      using assms Inr by (simp add: send_commands_def)
    from send_loop_keeps_fields[OF this] show ?thesis by blast
  qed
qed

lemma cmd_iter_error: "cmd_iter cmd_list = Inl e \<Longrightarrow> e = TypeError"
  by (cases cmd_list) (simp_all add: cmd_iter_def)

text \<open>
  Claim C2, as the code has it. \<^verbatim>\<open>send_commands\<close> raises \<^verbatim>\<open>ValueError\<close> with the session
  untouched (nothing written, nothing read) exactly when \<^verbatim>\<open>patterns\<close> is truthy and is
  neither a string nor a list. Falsy values of other types pass as absent, and the
  elements of a list are not inspected.
\<close>

theorem send_commands_value_error:
  "(fst (send_commands re_search cmd_list strip_cmd strip_pr patterns re_flags s) = Inl ValueError \<and>
    snd (send_commands re_search cmd_list strip_cmd strip_pr patterns re_flags s) = s)
   \<longleftrightarrow> (truthy patterns \<and> \<not> is_str patterns \<and> \<not> is_list patterns)"
proof (cases "pattern_list_of patterns (prompt_pattern s)")
  case (Inl e)
  then have "truthy patterns \<and> \<not> is_str patterns \<and> \<not> is_list patterns" "e = ValueError"
    using pattern_list_of_error[of patterns "prompt_pattern s" e] by simp_all
  then show ?thesis using Inl by (simp add: send_commands_def)
next
  case (Inr pl)
  then have no: "\<not> (truthy patterns \<and> \<not> is_str patterns \<and> \<not> is_list patterns)"
    using pattern_list_of_error[of patterns "prompt_pattern s" ValueError] by auto
  have "\<not> (fst (send_commands re_search cmd_list strip_cmd strip_pr patterns re_flags s) = Inl ValueError \<and>
    snd (send_commands re_search cmd_list strip_cmd strip_pr patterns re_flags s) = s)"
  proof (cases "cmd_iter cmd_list")
    case (Inl e)
    then show ?thesis using Inr cmd_iter_error[OF Inl] by (simp add: send_commands_def)
  next
    case cmds: (Inr cmds)
    obtain r s' where run: "send_loop re_search pl re_flags strip_cmd strip_pr cmds [] s = (r, s')"
      by (cases "send_loop re_search pl re_flags strip_cmd strip_pr cmds [] s")
    from send_loop_keeps_fields[OF run] obtain evs n where
      e: "s' = after_io evs n s" "evs = [] \<longrightarrow> r = Inr [] \<or> r = Inl AttributeError" by blast
    have "\<not> (r = Inl ValueError \<and> s' = s)"
    proof
      assume a: "r = Inl ValueError \<and> s' = s"
      then have "evs = []" using e(1) after_io_same[of evs n s] by simp
      with e(2) a show False by auto
    qed
    then show ?thesis using Inr cmds run by (simp add: send_commands_def)
  qed
  with no show ?thesis by blast
qed

theorem send_commands_value_error_witness:
  "truthy (PyInt 5) \<and> \<not> is_str (PyInt 5) \<and> \<not> is_list (PyInt 5) \<and>
   fst (send_commands py_re_search (PyStr ''show version'') True True (PyInt 5) {}
          (stub_session [''show version'' @ [LF] @ ''Router>''] ''Router>'' PyNone))
     = Inl ValueError \<and>
   snd (send_commands py_re_search (PyStr ''show version'') True True (PyInt 5) {}
          (stub_session [''show version'' @ [LF] @ ''Router>''] ''Router>'' PyNone))
     = stub_session [''show version'' @ [LF] @ ''Router>''] ''Router>'' PyNone"
  using send_commands_value_error [of py_re_search "PyStr ''show version''" True True "PyInt 5" "{}"
      "stub_session [''show version'' @ [LF] @ ''Router>''] ''Router>'' PyNone"]
  by simp

text \<open>
  \<^verbatim>\<open>patterns=0\<close> is present and neither a string nor a list of strings, and the call
  succeeds; \<^verbatim>\<open>patterns=[1]\<close> is not a list of strings, and the call fails with
  \<^verbatim>\<open>TypeError\<close> only in the search, after a write and a read.
\<close>

theorem send_commands_falsy_or_mixed_patterns:
  "PyInt 0 \<noteq> PyNone \<and> \<not> is_str (PyInt 0) \<and> \<not> is_list (PyInt 0) \<and>
   fst (send_commands py_re_search (PyStr ''show version'') True True (PyInt 0) {}
          (stub_session [''show version'' @ [LF] @ ''Router>''] ''Router>'' PyNone))
     = Inr [] \<and>
   \<not> is_str (PyList [PyInt 1]) \<and> \<not> list_all is_str [PyInt 1] \<and>
   fst (send_commands py_re_search (PyStr ''show version'') True True (PyList [PyInt 1]) {}
          (stub_session [''show version'' @ [LF] @ ''Router>''] ''Router>'' PyNone))
     = Inl TypeError \<and>
   trace (io_connection (snd
     (send_commands py_re_search (PyStr ''show version'') True True (PyList [PyInt 1]) {}
          (stub_session [''show version'' @ [LF] @ ''Router>''] ''Router>'' PyNone))))
     = [Sent (''show version'' @ [LF]), Received (''show version'' @ [LF] @ ''Router>'')]"
  by code_simp

section \<open>Session preparation\<close>

text \<open>
  Claim C1 at the input that breaks it. Without a pagination command
  (\<^verbatim>\<open>nopage_cmd\<close> is \<^verbatim>\<open>None\<close>, the default) \<^verbatim>\<open>_session_preparation\<close> writes and
  reads nothing, but it does not return the empty string: \<^verbatim>\<open>for cmd in None\<close> raises
  \<^verbatim>\<open>TypeError\<close>. So \<^verbatim>\<open>connect\<close> on a stream built with delimiter \<^verbatim>\<open>#\<close> raises after
  the prompt detection has done its exchange.
\<close>

theorem session_preparation_without_nopage_cmd:
  "session_preparation re_search (s\<lparr>nopage_cmd := PyNone\<rparr>)
     = (Inl TypeError, s\<lparr>nopage_cmd := PyNone\<rparr>) \<and>
   (case DeviceStream_init (Some (stub_io [''host#'' @ [LF] @ ''host#''])) [''#'']
           (Some last_line_setter) PyNone of
      Inl e \<Rightarrow> False
    | Inr dev \<Rightarrow>
        fst (connect py_re_search dev) = Inl TypeError \<and>
        trace (io_connection (snd (connect py_re_search dev)))
          = [Connected, Sent [LF], Received (''host#'' @ [LF] @ ''host#'')])"
proof -
  have "session_preparation re_search (s\<lparr>nopage_cmd := PyNone\<rparr>)
     = (Inl TypeError, s\<lparr>nopage_cmd := PyNone\<rparr>)"
    by (simp add: session_preparation_def send_commands_def pattern_list_of_def cmd_iter_def)
  moreover have "case DeviceStream_init (Some (stub_io [''host#'' @ [LF] @ ''host#''])) [''#'']
           (Some last_line_setter) PyNone of
      Inl e \<Rightarrow> False
    | Inr dev \<Rightarrow>
        fst (connect py_re_search dev) = Inl TypeError \<and>
        trace (io_connection (snd (connect py_re_search dev)))
          = [Connected, Sent [LF], Received (''host#'' @ [LF] @ ''host#'')]"
    by code_simp
  ultimately show ?thesis by blast
qed

section \<open>Stripping the command\<close>

lemma strip_command_plain:
  "BS \<notin> set buf \<Longrightarrow> strip_command cmd buf = drop (length cmd) buf"
  by (simp add: strip_command_def)

lemma send_commands_single:
  assumes "send_commands rx (PyStr cmd) sc sp patterns fl s = (Inr out, s')"
  shows "\<exists>pl chunks. pattern_list_of patterns (prompt_pattern s) = Inr pl \<and>
     first_match rx pl fl [] chunks \<and>
     prefix chunks (inbox (io_connection s)) \<and>
     s' = after_io (exchange cmd chunks) (length chunks) s \<and>
     out = (if sp then strip_prompt (if sc then strip_command cmd (normalize_linefeeds (concat chunks))
                                     else normalize_linefeeds (concat chunks))
            else (if sc then strip_command cmd (normalize_linefeeds (concat chunks))
                  else normalize_linefeeds (concat chunks)))"
proof -
  obtain pl where pl: "pattern_list_of patterns (prompt_pattern s) = Inr pl"
    using assms by (cases "pattern_list_of patterns (prompt_pattern s)") (simp_all add: send_commands_def)
  then have run: "send_loop rx pl fl sc sp (PyStr cmd # []) [] s = (Inr out, s')"
    using assms by (simp add: send_commands_def cmd_iter_def)
  show ?thesis
    using run
  proof (cases rule: send_loop_step)
    case (Failed chunks e)
    then show ?thesis by simp
  next
    case (Done chunks buf)
    from Done(4) have "out = (if sp then strip_prompt (if sc then strip_command cmd buf else buf)
                  else (if sc then strip_command cmd buf else buf))"
     "s' = after_io (exchange cmd chunks) (length chunks) s"
      by (simp_all split: if_splits)
    then show ?thesis using pl Done(1,2,3) by (intro exI[of _ pl] exI[of _ chunks]) simp
  qed
qed

text \<open>
  What the loop strips: for one command sent with command stripping on and prompt
  stripping off, the result is \<^verbatim>\<open>_strip_command\<close> applied to the command as it was given
  (its normalized form is what was written) and the captured output; without a backspace
  there, exactly the first \<^verbatim>\<open>len(cmd)\<close> characters of the output are removed.
\<close>

lemma send_commands_strip_length:
  assumes "send_commands re_search (PyStr cmd) True False patterns re_flags s = (Inr out, s')"
  shows "\<exists>chunks.
     trace (io_connection s') = trace (io_connection s) @ exchange cmd chunks \<and>
     out = strip_command cmd (normalize_linefeeds (concat chunks)) \<and>
     (BS \<notin> set (normalize_linefeeds (concat chunks)) \<longrightarrow>
        out = drop (length cmd) (normalize_linefeeds (concat chunks)) \<and>
        (prefix (normalize_cmd cmd) (normalize_linefeeds (concat chunks)) \<and> normalize_cmd cmd = cmd
           \<longrightarrow> normalize_cmd cmd @ out = normalize_linefeeds (concat chunks)))"
proof -
  from send_commands_single[OF assms] obtain pl chunks where
    s': "s' = after_io (exchange cmd chunks) (length chunks) s"
    and out: "out = strip_command cmd (normalize_linefeeds (concat chunks))"
    by auto
  define buf where "buf = normalize_linefeeds (concat chunks)"
  have a: "trace (io_connection s') = trace (io_connection s) @ exchange cmd chunks"
    using s' by (simp add: after_io_fields)
  have b: "out = drop (length cmd) buf" if "BS \<notin> set buf"
    using that out by (simp add: buf_def strip_command_plain)
  have c: "normalize_cmd cmd @ out = buf"
    if "BS \<notin> set buf" "prefix (normalize_cmd cmd) buf" "normalize_cmd cmd = cmd"
  proof -
    from that(2,3) obtain rest where "buf = cmd @ rest" by (auto simp: prefix_def)
    then show ?thesis using b[OF that(1)] that(3) by simp
  qed
  show ?thesis
    using a out b c unfolding buf_def by (intro exI[of _ chunks]) blast
qed

text \<open>
  Claim C4 at an input that breaks it. The command \<^verbatim>\<open>show version\<close> is given without a
  newline; the device echoes the normalized command and prints its prompt. The captured
  output has no backspace and begins with the normalized command, 13 characters long, but
  \<^verbatim>\<open>send_commands\<close> hands the command as given to \<^verbatim>\<open>_strip_command\<close>, which removes 12
  characters: the line feed of the echo stays at the head of the result.
\<close>

theorem strip_command_leaves_newline:
  "BS \<notin> set (''show version'' @ [LF] @ ''Router>'') \<and>
   prefix (normalize_cmd ''show version'') (''show version'' @ [LF] @ ''Router>'') \<and>
   length (normalize_cmd ''show version'') = 13 \<and>
   drop (length (normalize_cmd ''show version'')) (''show version'' @ [LF] @ ''Router>'') = ''Router>'' \<and>
   fst (send_commands py_re_search (PyStr ''show version'') True False PyNone {}
         (stub_session [''show version'' @ [LF] @ ''Router>''] ''Router>'' PyNone))
     = Inr ([LF] @ ''Router>'') \<and>
   trace (io_connection (snd
     (send_commands py_re_search (PyStr ''show version'') True False PyNone {}
         (stub_session [''show version'' @ [LF] @ ''Router>''] ''Router>'' PyNone))))
     = [Sent (''show version'' @ [LF]), Received (''show version'' @ [LF] @ ''Router>'')] \<and>
   strip_command (normalize_cmd ''show version'') (''show version'' @ [LF] @ ''Router>'') = ''Router>''"
  by code_simp

section \<open>Ordering of writes and reads\<close>

lemma sent_of_exchanges:
  "filter is_sent (concat (map2 exchange cmds chunkss))
     = map (\<lambda>c. Sent (normalize_cmd c)) (take (length chunkss) cmds)"
proof (induction cmds arbitrary: chunkss)
  case Nil
  then show ?case by simp
next
  case (Cons c cmds)
  have r: "filter is_sent (map Received cs) = []" for cs
    by (induction cs) simp_all
  show ?case
  proof (cases chunkss)
    case Nil
    then show ?thesis by simp
  next
    case (Cons cs css)
    then show ?thesis using Cons.IH[of css] r by (simp add: exchange_def)
  qed
qed

text \<open>
  Claim C9. The transport events of one \<^verbatim>\<open>send_commands\<close> call over a list of command
  strings are the exchanges of the commands, one after the other in list order: for each
  command one write of its normalized text, followed by the reads of its chunks, which end
  with the first chunk on which a pattern of the list matches the accumulated buffer. The
  chunks are taken from the script in order. A call that returns has gone through every
  command; a call that raises has stopped inside the exchange of one command, and no later
  command was written.
\<close>

theorem send_commands_sequential:
  assumes "send_commands re_search cmd_list strip_cmd strip_pr patterns re_flags s = (r, s')"
    and "cmd_iter cmd_list = Inr (map PyStr cmds)"
    and "pattern_list_of patterns (prompt_pattern s) = Inr pattern_list"
  shows "\<exists>chunkss.
     length chunkss \<le> length cmds \<and>
     (isl r \<longrightarrow> chunkss \<noteq> []) \<and>
     (\<not> isl r \<longrightarrow> length chunkss = length cmds) \<and>
     trace (io_connection s') = trace (io_connection s) @ concat (map2 exchange cmds chunkss) \<and>
     filter is_sent (concat (map2 exchange cmds chunkss))
       = map (\<lambda>c. Sent (normalize_cmd c)) (take (length chunkss) cmds) \<and>
     inbox (io_connection s) = concat chunkss @ inbox (io_connection s') \<and>
     (\<forall>chunks \<in> set (if isl r then butlast chunkss else chunkss).
        first_match re_search pattern_list re_flags [] chunks)"
proof -
  have run: "send_loop re_search pattern_list re_flags strip_cmd strip_pr (map PyStr cmds) [] s = (r, s')"
    using assms by (simp add: send_commands_def)
  from send_loop_shape[OF run] obtain chunkss where c:
    "length chunkss \<le> length cmds" "isl r \<longrightarrow> chunkss \<noteq> []"
    "\<not> isl r \<longrightarrow> length chunkss = length cmds"
    "prefix (concat chunkss) (inbox (io_connection s))"
    "s' = after_io (concat (map2 exchange cmds chunkss)) (length (concat chunkss)) s"
    "\<forall>chunks \<in> set (if isl r then butlast chunkss else chunkss).
        first_match re_search pattern_list re_flags [] chunks"
    by blast
  have t: "trace (io_connection s') = trace (io_connection s) @ concat (map2 exchange cmds chunkss)"
    using c(5) by (simp add: after_io_fields)
  have i: "inbox (io_connection s) = concat chunkss @ inbox (io_connection s')"
    using c(4,5) by (auto simp: after_io_fields prefix_def)
  show ?thesis
    using c(1,2,3,6) t i sent_of_exchanges[of cmds chunkss]
    by (intro exI[of _ chunkss]) blast
qed

theorem send_commands_sequential_witness:
  "cmd_iter two_commands = Inr (map PyStr [''show ip'', ''show run'']) \<and>
   pattern_list_of PyNone (prompt_pattern two_command_session) = Inr [PyStr ''Router>''] \<and>
   fst (send_commands py_re_search two_commands True True PyNone {} two_command_session)
     = Inr ([LF] @ ''10.0.0.1'' @ [LF] @ ''hostname r1'') \<and>
   trace (io_connection (snd
       (send_commands py_re_search two_commands True True PyNone {} two_command_session)))
     = [Sent (''show ip'' @ [LF]), Received (''show ip'' @ [LF]),
        Received (''10.0.0.1'' @ [LF] @ ''Router>''),
        Sent (''show run'' @ [LF]),
        Received (''show run'' @ [LF] @ ''hostname r1'' @ [LF] @ ''Router>'')] \<and>
   (\<exists>chunkss.
     length chunkss \<le> length [''show ip'', ''show run''] \<and>
     (isl (Inr ([LF] @ ''10.0.0.1'' @ [LF] @ ''hostname r1'') :: error + string)
        \<longrightarrow> chunkss \<noteq> []) \<and>
     (\<not> isl (Inr ([LF] @ ''10.0.0.1'' @ [LF] @ ''hostname r1'') :: error + string)
        \<longrightarrow> length chunkss = length [''show ip'', ''show run'']) \<and>
     trace (io_connection (snd
         (send_commands py_re_search two_commands True True PyNone {} two_command_session)))
       = trace (io_connection two_command_session)
           @ concat (map2 exchange [''show ip'', ''show run''] chunkss) \<and>
     filter is_sent (concat (map2 exchange [''show ip'', ''show run''] chunkss))
       = map (\<lambda>c. Sent (normalize_cmd c)) (take (length chunkss) [''show ip'', ''show run'']) \<and>
     inbox (io_connection two_command_session)
       = concat chunkss @ inbox (io_connection (snd
           (send_commands py_re_search two_commands True True PyNone {} two_command_session))) \<and>
     (\<forall>chunks \<in> set (if isl (Inr ([LF] @ ''10.0.0.1'' @ [LF] @ ''hostname r1'') :: error + string)
                        then butlast chunkss else chunkss).
        first_match py_re_search [PyStr ''Router>''] {} [] chunks))"
proof -
  let ?run = "send_commands py_re_search two_commands True True PyNone {} two_command_session"
  have res: "fst ?run = Inr ([LF] @ ''10.0.0.1'' @ [LF] @ ''hostname r1'')"
    by code_simp
  have tr: "trace (io_connection (snd ?run))
     = [Sent (''show ip'' @ [LF]), Received (''show ip'' @ [LF]),
        Received (''10.0.0.1'' @ [LF] @ ''Router>''),
        Sent (''show run'' @ [LF]),
        Received (''show run'' @ [LF] @ ''hostname r1'' @ [LF] @ ''Router>'')]"
    by code_simp
  have run: "?run = (Inr ([LF] @ ''10.0.0.1'' @ [LF] @ ''hostname r1''), snd ?run)"
    using res by (simp only: prod_eq_iff fst_conv snd_conv simp_thms)
  have it: "cmd_iter two_commands = Inr (map PyStr [''show ip'', ''show run''])"
    by (simp add: cmd_iter_def two_commands_def)
  have pl: "pattern_list_of PyNone (prompt_pattern two_command_session) = Inr [PyStr ''Router>'']"
    by (simp add: pattern_list_of_def stub_session_def two_command_session_def)
  show ?thesis
    by (rule conjI[OF it conjI[OF pl conjI[OF res conjI[OF tr
          send_commands_sequential [OF run it pl]]]]])
qed

section \<open>Prompt detection\<close>

lemma normalize_cmd_newline: "normalize_cmd [LF] = [LF]"
  by (simp add: normalize_cmd_def rstrip_nl_def)

lemma send_commands_prompt_pattern:
  "prompt_pattern (snd (send_commands rx cmd_list sc sp patterns fl s)) = prompt_pattern s"
proof -
  obtain r s' where run: "send_commands rx cmd_list sc sp patterns fl s = (r, s')"
    by (cases "send_commands rx cmd_list sc sp patterns fl s")
  from send_commands_keeps_fields[OF run] obtain evs n where "s' = after_io evs n s" by blast
  then show ?thesis using run by (simp add: after_io_fields)
qed

text \<open>
  Claim C8. When \<^verbatim>\<open>_find_prompt\<close> returns, it has sent one bare newline and read chunks
  until the two-line pattern (built from the bootstrap pattern, under the multi-line and
  dot-all flags) first matched; its result is the whole captured text, line feeds
  normalized and neither command nor prompt stripped; the session's pattern is the
  prompt setter's answer to exactly that text; and no later \<^verbatim>\<open>send_commands\<close> call
  changes the pattern of a session.
\<close>

theorem find_prompt_learns_pattern:
  assumes "find_prompt re_search s = (Inr raw, s')"
  shows "(\<exists>chunks.
      first_match re_search [PyStr (two_line_pattern (prompt_pattern s))]
        {MULTILINE, DOTALL} [] chunks \<and>
      raw = normalize_linefeeds (concat chunks) \<and>
      trace (io_connection s') = trace (io_connection s) @ Sent [LF] # map Received chunks \<and>
      inbox (io_connection s) = chunks @ inbox (io_connection s')) \<and>
    prompt_pattern s' = set_prompt_func s raw \<and>
    prompt_pattern (snd (send_commands re_search cmd_list strip_cmd strip_pr patterns re_flags s'))
      = set_prompt_func s raw \<and>
    prompt_pattern (snd (send_commands re_search cmd_list strip_cmd strip_pr patterns re_flags t))
      = prompt_pattern t"
proof -
  define s0 where "s0 = s\<lparr>prompt_pattern := two_line_pattern (prompt_pattern s)\<rparr>"
  obtain r1 s1 where probe:
    "send_commands re_search (PyStr [LF]) False False PyNone {MULTILINE, DOTALL} s0 = (r1, s1)"
    by (cases "send_commands re_search (PyStr [LF]) False False PyNone {MULTILINE, DOTALL} s0")
  have fp: "find_prompt re_search s =
      (case r1 of Inl e \<Rightarrow> (Inl e, s1)
       | Inr raw_prompt \<Rightarrow> (Inr raw_prompt, s1\<lparr>prompt_pattern := set_prompt_func s1 raw_prompt\<rparr>))"
    using probe
    by (cases r1) (simp_all add: find_prompt_def s0_def Let_def)
  with assms have r1: "r1 = Inr raw" and s': "s' = s1\<lparr>prompt_pattern := set_prompt_func s1 raw\<rparr>"
    by (cases r1; simp)+
  from send_commands_single[OF probe[unfolded r1]]
  obtain pl chunks where pl: "pattern_list_of PyNone (prompt_pattern s0) = Inr pl"
    and fm: "first_match re_search pl {MULTILINE, DOTALL} [] chunks"
    and pre: "prefix chunks (inbox (io_connection s0))"
    and s1: "s1 = after_io (exchange [LF] chunks) (length chunks) s0"
    and raw: "raw = normalize_linefeeds (concat chunks)"
    by auto
  have pl': "pl = [PyStr (two_line_pattern (prompt_pattern s))]"
    using pl by (simp add: pattern_list_of_def s0_def)
  have f: "set_prompt_func s1 = set_prompt_func s"
    by (simp add: s1 after_io_fields s0_def)
  have tr: "trace (io_connection s') = trace (io_connection s) @ Sent [LF] # map Received chunks"
    by (simp add: s' s1 after_io_fields s0_def exchange_def normalize_cmd_newline)
  have inb: "inbox (io_connection s) = chunks @ inbox (io_connection s')"
    using pre by (auto simp: s' s1 after_io_fields s0_def prefix_def)
  have pp: "prompt_pattern s' = set_prompt_func s raw"
    by (simp add: s' f)
  show ?thesis
    using fm raw tr inb pp unfolding pl'
    by (auto simp: send_commands_prompt_pattern)
qed

theorem find_prompt_learns_pattern_witness:
  "fst (find_prompt py_re_search hash_device)
     = Inr (''Welcome'' @ [LF] @ ''host#'' @ [LF] @ ''host#'') \<and>
   prompt_pattern (snd (find_prompt py_re_search hash_device)) = ''host'' @ [CHR 0x5C] @ ''#'' \<and>
   ((\<exists>chunks.
      first_match py_re_search [PyStr (two_line_pattern (prompt_pattern hash_device))]
        {MULTILINE, DOTALL} [] chunks \<and>
      ''Welcome'' @ [LF] @ ''host#'' @ [LF] @ ''host#'' = normalize_linefeeds (concat chunks) \<and>
      trace (io_connection (snd (find_prompt py_re_search hash_device)))
        = trace (io_connection hash_device) @ Sent [LF] # map Received chunks \<and>
      inbox (io_connection hash_device)
        = chunks @ inbox (io_connection (snd (find_prompt py_re_search hash_device)))) \<and>
    prompt_pattern (snd (find_prompt py_re_search hash_device))
      = set_prompt_func hash_device (''Welcome'' @ [LF] @ ''host#'' @ [LF] @ ''host#'') \<and>
    prompt_pattern (snd (send_commands py_re_search (PyStr ''show version'') True True PyNone {}
        (snd (find_prompt py_re_search hash_device))))
      = set_prompt_func hash_device (''Welcome'' @ [LF] @ ''host#'' @ [LF] @ ''host#'') \<and>
    prompt_pattern (snd (send_commands py_re_search (PyStr ''show version'') True True PyNone {}
        two_command_session))
      = prompt_pattern two_command_session)"
proof -
  let ?run = "find_prompt py_re_search hash_device"
  have res: "fst ?run = Inr (''Welcome'' @ [LF] @ ''host#'' @ [LF] @ ''host#'')"
    by code_simp
  have pat: "prompt_pattern (snd ?run) = ''host'' @ [CHR 0x5C] @ ''#''"
    by code_simp
  have run: "?run = (Inr (''Welcome'' @ [LF] @ ''host#'' @ [LF] @ ''host#''), snd ?run)"
    using res by (simp only: prod_eq_iff fst_conv snd_conv simp_thms)
  show ?thesis
    by (rule conjI[OF res conjI[OF pat find_prompt_learns_pattern [OF run]]])
qed

section \<open>The bootstrap pattern\<close>

lemma special_not_alnum: "c \<in> set re_special \<Longrightarrow> \<not> is_alnum c"
  by (auto simp: re_special_def is_alnum_def)

lemma nonspecial_plain:
  assumes "c \<notin> set re_special"
  shows "rx_parse_loop (c # cs) (alts, cur) stack = rx_parse_loop cs (alts, Chr c # cur) stack"
proof -
  have "c \<noteq> CHR 0x5C" "c \<noteq> CHR ''(''" "c \<noteq> CHR '')''" "c \<noteq> CHR ''|''" "c \<noteq> CHR ''*''"
    "c \<noteq> CHR ''.''" "c \<noteq> CHR ''$''"
    "c \<notin> {CHR ''^'', CHR ''+'', CHR ''?'', CHR ''{'', CHR ''}'', CHR ''['', CHR '']''}"
    using assms by (auto simp: re_special_def)
  then show ?thesis by simp
qed

lemma special_escaped:
  assumes "c \<in> set re_special"
  shows "rx_parse_loop (CHR 0x5C # c # cs) (alts, cur) stack
           = rx_parse_loop cs (alts, Chr c # cur) stack"
  using special_not_alnum[OF assms] by simp

lemma parse_escaped_literal:
  "rx_parse_loop (re_escape d @ rest) (alts, cur) stack
     = rx_parse_loop rest (alts, rev (map Chr d) @ cur) stack"
proof (induction d arbitrary: cur)
  case Nil
  show ?case by simp
next
  case (Cons c d)
  show ?case
  proof (cases "c \<in> set re_special")
    case True
    have "rx_parse_loop (re_escape (c # d) @ rest) (alts, cur) stack
            = rx_parse_loop (CHR 0x5C # c # (re_escape d @ rest)) (alts, cur) stack"
      using True by simp
    also have "\<dots> = rx_parse_loop (re_escape d @ rest) (alts, Chr c # cur) stack"
      by (rule special_escaped[OF True])
    finally show ?thesis using Cons.IH[of "Chr c # cur"] by simp
  next
    case False
    have "rx_parse_loop (re_escape (c # d) @ rest) (alts, cur) stack
            = rx_parse_loop (c # (re_escape d @ rest)) (alts, cur) stack"
      using False by simp
    also have "\<dots> = rx_parse_loop (re_escape d @ rest) (alts, Chr c # cur) stack"
      by (rule nonspecial_plain[OF False])
    finally show ?thesis using Cons.IH[of "Chr c # cur"] by simp
  qed
qed

lemma parse_bar:
  "rx_parse_loop (CHR ''|'' # cs) (alts, cur) stack
     = rx_parse_loop cs (mk_cat (rev cur) # alts, []) stack"
  by simp

lemma parse_joined:
  "rx_parse_loop (join_str [CHR ''|''] (map re_escape (d # ds))) (alts, []) []
     = Some (mk_alt (rev alts @ map (\<lambda>d. mk_cat (map Chr d)) (d # ds)))"
proof (induction ds arbitrary: d alts)
  case Nil
  have "rx_parse_loop (re_escape d @ []) (alts, []) []
          = rx_parse_loop [] (alts, rev (map Chr d) @ []) []"
    by (rule parse_escaped_literal)
  then show ?case by (simp add: rev_map)
next
  case (Cons d' ds)
  have "rx_parse_loop (join_str [CHR ''|''] (map re_escape (d # d' # ds))) (alts, []) []
      = rx_parse_loop (re_escape d @ (CHR ''|'' # join_str [CHR ''|''] (map re_escape (d' # ds))))
          (alts, []) []"
    by simp
  also have "\<dots> = rx_parse_loop (CHR ''|'' # join_str [CHR ''|''] (map re_escape (d' # ds)))
          (alts, rev (map Chr d) @ []) []"
    by (rule parse_escaped_literal)
  also have "\<dots> = rx_parse_loop (join_str [CHR ''|''] (map re_escape (d' # ds)))
          (mk_cat (map Chr d) # alts, []) []"
    by (simp only: parse_bar append_Nil2 rev_rev_ident)
  also have "\<dots> = Some (mk_alt (rev (mk_cat (map Chr d) # alts)
                      @ map (\<lambda>d. mk_cat (map Chr d)) (d' # ds)))"
    by (rule Cons.IH)
  finally show ?case by simp
qed

lemma rests_literal:
  "rx_rests ml da (mk_cat (map Chr d)) t = (if prefix d t then {drop (length d) t} else {})"
proof (induction d arbitrary: t)
  case Nil
  show ?case by simp
next
  case (Cons c d)
  show ?case by (cases t) (simp_all add: Cons.IH)
qed

lemma rests_mk_alt:
  "rs \<noteq> [] \<Longrightarrow> rx_rests ml da (mk_alt rs) t = (\<Union>r \<in> set rs. rx_rests ml da r t)"
  by (induction rs rule: mk_alt.induct) auto

lemma sublist_suffix_prefix: "sublist d t \<longleftrightarrow> (\<exists>u \<in> set (suffixes t). prefix d u)"
proof
  assume "sublist d t"
  then obtain ps ss where "t = ps @ d @ ss" by (auto simp: sublist_def)
  then have "d @ ss \<in> set (suffixes t)" "prefix d (d @ ss)"
    by (simp_all add: in_set_suffixes suffix_def)
  then show "\<exists>u \<in> set (suffixes t). prefix d u" by (rule bexI[rotated])
next
  assume "\<exists>u \<in> set (suffixes t). prefix d u"
  then obtain u where "suffix u t" "prefix d u" by (auto simp: in_set_suffixes)
  then obtain ps ss where "t = ps @ u" "u = d @ ss" by (auto simp: suffix_def prefix_def)
  then show "sublist d t" by (auto simp: sublist_def)
qed

lemma search_literals:
  assumes "ds \<noteq> []"
  shows "rx_search ml da (mk_alt (map (\<lambda>d. mk_cat (map Chr d)) ds)) t
           \<longleftrightarrow> (\<exists>d \<in> set ds. sublist d t)"
proof -
  have "rx_rests ml da (mk_alt (map (\<lambda>d. mk_cat (map Chr d)) ds)) u \<noteq> {}
          \<longleftrightarrow> (\<exists>d \<in> set ds. prefix d u)" for u
    using assms by (auto simp: rests_mk_alt rests_literal split: if_splits)
  then show ?thesis
    by (auto simp: rx_search_def sublist_suffix_prefix)
qed

lemma parse_bootstrap:
  "ds \<noteq> [] \<Longrightarrow>
   rx_parse (join_str [CHR ''|''] (map re_escape ds)) = Some (mk_alt (map (\<lambda>d. mk_cat (map Chr d)) ds))"
  using parse_joined[of "hd ds" "tl ds" "[]"] by (cases ds) (simp_all add: rx_parse_def)

text \<open>
  Claim C7. For a stream constructed from a non-empty delimiter list, the bootstrap
  pattern is read as the alternation of the delimiters, each character of each delimiter
  a literal (every metacharacter is escaped), and \<^verbatim>\<open>re.search\<close> finds it in a text exactly
  when one of the delimiters occurs verbatim in the text: every delimiter is matched, and
  a text without a verbatim occurrence is not, whatever metacharacters it contains.
\<close>

theorem bootstrap_pattern_matches_literals:
  assumes "DeviceStream_init io_conn delimeter_list set_prompt nopage = Inr dev"
    and "delimeter_list \<noteq> []"
    and "re_flags \<subseteq> {MULTILINE, DOTALL}"
  shows "rx_parse (prompt_pattern dev)
           = Some (mk_alt (map (\<lambda>d. mk_cat (map Chr d)) delimeter_list)) \<and>
         py_re_search (PyStr (prompt_pattern dev)) text re_flags
           = Inr (\<exists>d \<in> set delimeter_list. sublist d text)"
proof -
  have pp: "prompt_pattern dev = join_str [CHR ''|''] (map re_escape delimeter_list)"
    using assms(1) by (auto simp: DeviceStream_init_def split: option.splits)
  show ?thesis
    using assms(3)
    by (simp add: py_re_search_def pp parse_bootstrap[OF assms(2)] search_literals[OF assms(2)])
qed

theorem bootstrap_pattern_matches_literals_witness:
  "DeviceStream_init (Some (stub_io [])) [''a.b'', ''>'', ''#''] (Some last_line_setter) PyNone
     = Inr (stub_session [] (join_str ''|'' (map re_escape [''a.b'', ''>'', ''#''])) PyNone) \<and>
   [''a.b'', ''>'', ''#''] \<noteq> [] \<and>
   ({} :: re_flag set) \<subseteq> {MULTILINE, DOTALL} \<and>
   py_re_search (PyStr (prompt_pattern
       (stub_session [] (join_str ''|'' (map re_escape [''a.b'', ''>'', ''#''])) PyNone))) ''axb'' {}
     = Inr (\<exists>d \<in> set [''a.b'', ''>'', ''#'']. sublist d ''axb'') \<and>
   \<not> (\<exists>d \<in> set [''a.b'', ''>'', ''#'']. sublist d ''axb'') \<and>
   py_re_search (PyStr (prompt_pattern
       (stub_session [] (join_str ''|'' (map re_escape [''a.b'', ''>'', ''#''])) PyNone))) ''xa.b'' {}
     = Inr (\<exists>d \<in> set [''a.b'', ''>'', ''#'']. sublist d ''xa.b'') \<and>
   (\<exists>d \<in> set [''a.b'', ''>'', ''#'']. sublist d ''xa.b'')"
proof -
  have i: "DeviceStream_init (Some (stub_io [])) [''a.b'', ''>'', ''#''] (Some last_line_setter) PyNone
     = Inr (stub_session [] (join_str ''|'' (map re_escape [''a.b'', ''>'', ''#''])) PyNone)"
    by (simp add: DeviceStream_init_def stub_session_def)
  have n: "[''a.b'', ''>'', ''#''] \<noteq> []" by simp
  have f: "({} :: re_flag set) \<subseteq> {MULTILINE, DOTALL}" by simp
  have no: "\<not> (\<exists>d \<in> set [''a.b'', ''>'', ''#'']. sublist d ''axb'')" by code_simp
  have yes: "\<exists>d \<in> set [''a.b'', ''>'', ''#'']. sublist d ''xa.b''" by code_simp
  show ?thesis
    by (rule conjI[OF i conjI[OF n conjI[OF f
          conjI[OF conjunct2[OF bootstrap_pattern_matches_literals [OF i n f, of "''axb''"]]
          conjI[OF no
          conjI[OF conjunct2[OF bootstrap_pattern_matches_literals [OF i n f, of "''xa.b''"]]
            yes]]]]]])
qed

section \<open>The life of the prompt pattern\<close>

lemma join_str_empty: "join_str [c] xs = [] \<longleftrightarrow> xs = [] \<or> xs = [[]]"
  by (induction "[c]" xs rule: join_str.induct) auto

lemma re_escape_empty: "re_escape d = [] \<longleftrightarrow> d = []"
  by (cases d) auto

lemma bootstrap_empty:
  "join_str [CHR ''|''] (map re_escape ds) = [] \<longleftrightarrow> ds = [] \<or> ds = [[]]"
proof -
  have "map re_escape ds = [[]] \<longleftrightarrow> ds = [[]]"
    by (cases ds) (auto simp: re_escape_empty)
  then show ?thesis by (simp add: join_str_empty)
qed

lemma bootstrap_parses: "rx_parse (join_str [CHR ''|''] (map re_escape ds)) \<noteq> None"
proof (cases "ds = []")
  case True
  then show ?thesis by (simp add: rx_parse_def)
next
  case False
  then show ?thesis by (simp add: parse_bootstrap)
qed

lemma find_prompt_pattern:
  "prompt_pattern (snd (find_prompt rx s))
     = (case fst (find_prompt rx s) of
          Inl e \<Rightarrow> two_line_pattern (prompt_pattern s)
        | Inr raw \<Rightarrow> set_prompt_func s raw)"
proof -
  define s0 where "s0 = s\<lparr>prompt_pattern := two_line_pattern (prompt_pattern s)\<rparr>"
  obtain r1 s1 where probe:
    "send_commands rx (PyStr [LF]) False False PyNone {MULTILINE, DOTALL} s0 = (r1, s1)"
    by (cases "send_commands rx (PyStr [LF]) False False PyNone {MULTILINE, DOTALL} s0")
  from send_commands_keeps_fields[OF probe] obtain evs n where s1: "s1 = after_io evs n s0"
    by blast
  have fp: "find_prompt rx s =
      (case r1 of Inl e \<Rightarrow> (Inl e, s1)
       | Inr raw_prompt \<Rightarrow> (Inr raw_prompt, s1\<lparr>prompt_pattern := set_prompt_func s1 raw_prompt\<rparr>))"
    using probe by (cases r1) (simp_all add: find_prompt_def s0_def Let_def)
  show ?thesis
    by (cases r1) (simp_all add: fp s1 after_io_fields s0_def)
qed

text \<open>
  Claim C6, as the code has it. Construction with a connection and a prompt setter
  accepts every delimiter list, the empty one included, and the bootstrap pattern is the
  joined escaped delimiters: a pattern the fragment gives a meaning to, and empty exactly
  for the empty list and for the list of one empty delimiter. Prompt detection first
  installs the two-line pattern built from the bootstrap pattern; when its probe returns,
  the pattern is the prompt setter's answer, and when the probe raises, the two-line pattern
  stays. \<^verbatim>\<open>send_commands\<close>, session preparation and \<^verbatim>\<open>disconnect\<close> never change the
  pattern.
\<close>

theorem prompt_pattern_lifecycle:
  "DeviceStream_init (Some io) delimeter_list (Some f) nopage
     = Inr \<lparr>io_connection = io, set_prompt_func = f,
            prompt_pattern = join_str ''|'' (map re_escape delimeter_list),
            nopage_cmd = nopage\<rparr> \<and>
   (join_str ''|'' (map re_escape delimeter_list) = []
      \<longleftrightarrow> delimeter_list = [] \<or> delimeter_list = [[]]) \<and>
   rx_parse (join_str ''|'' (map re_escape delimeter_list)) \<noteq> None \<and>
   prompt_pattern (snd (find_prompt re_search s))
     = (case fst (find_prompt re_search s) of
          Inl e \<Rightarrow> two_line_pattern (prompt_pattern s)
        | Inr raw \<Rightarrow> set_prompt_func s raw) \<and>
   prompt_pattern (snd (send_commands re_search cmd_list strip_cmd strip_pr patterns re_flags s))
     = prompt_pattern s \<and>
   prompt_pattern (snd (session_preparation re_search s)) = prompt_pattern s \<and>
   prompt_pattern (snd (disconnect s)) = prompt_pattern s"
  using bootstrap_empty[of delimeter_list] bootstrap_parses[of delimeter_list]
    find_prompt_pattern[of re_search s]
  by (simp add: DeviceStream_init_def send_commands_prompt_pattern session_preparation_def
        disconnect_def)

theorem prompt_pattern_lifecycle_witness:
  "fst (find_prompt py_re_search hash_device)
     = Inr (''Welcome'' @ [LF] @ ''host#'' @ [LF] @ ''host#'') \<and>
   prompt_pattern (snd (find_prompt py_re_search hash_device)) = ''host'' @ [CHR 0x5C] @ ''#'' \<and>
   (DeviceStream_init (Some (stub_io [])) [''#''] (Some last_line_setter) PyNone
     = Inr \<lparr>io_connection = stub_io [], set_prompt_func = last_line_setter,
            prompt_pattern = join_str ''|'' (map re_escape [''#'']),
            nopage_cmd = PyNone\<rparr> \<and>
   (join_str ''|'' (map re_escape [''#'']) = []
      \<longleftrightarrow> [''#''] = [] \<or> [''#''] = [[]]) \<and>
   rx_parse (join_str ''|'' (map re_escape [''#''])) \<noteq> None \<and>
   prompt_pattern (snd (find_prompt py_re_search hash_device))
     = (case fst (find_prompt py_re_search hash_device) of
          Inl e \<Rightarrow> two_line_pattern (prompt_pattern hash_device)
        | Inr raw \<Rightarrow> set_prompt_func hash_device raw) \<and>
   prompt_pattern (snd (send_commands py_re_search two_commands True True PyNone {} hash_device))
     = prompt_pattern hash_device \<and>
   prompt_pattern (snd (session_preparation py_re_search hash_device)) = prompt_pattern hash_device \<and>
   prompt_pattern (snd (disconnect hash_device)) = prompt_pattern hash_device)"
proof -
  have res: "fst (find_prompt py_re_search hash_device)
     = Inr (''Welcome'' @ [LF] @ ''host#'' @ [LF] @ ''host#'')"
    by code_simp
  have pat: "prompt_pattern (snd (find_prompt py_re_search hash_device))
     = ''host'' @ [CHR 0x5C] @ ''#''"
    by code_simp
  show ?thesis
    by (rule conjI[OF res conjI[OF pat prompt_pattern_lifecycle]])
qed

text \<open>
  The empty delimiter list is not rejected: the stream is constructed with the empty
  pattern. And a probe that fails (here: the device sends nothing) leaves a pattern that
  is neither the bootstrap pattern nor a learned one.
\<close>

theorem empty_delimiter_list_accepted:
  "DeviceStream_init (Some (stub_io [])) [] (Some last_line_setter) PyNone
     = Inr (stub_session [] [] PyNone) \<and>
   prompt_pattern (stub_session [] [] PyNone) = [] \<and>
   fst (find_prompt py_re_search (stub_session [] ''>'' PyNone)) = Inl IOError \<and>
   prompt_pattern (snd (find_prompt py_re_search (stub_session [] ''>'' PyNone)))
     = ''(>).*$.*(>)$''"
proof -
  have "DeviceStream_init (Some (stub_io [])) [] (Some last_line_setter) PyNone
     = Inr (stub_session [] [] PyNone) \<and>
   prompt_pattern (stub_session [] [] PyNone) = []"
    by (simp add: DeviceStream_init_def stub_session_def)
  moreover have "fst (find_prompt py_re_search (stub_session [] ''>'' PyNone)) = Inl IOError \<and>
   prompt_pattern (snd (find_prompt py_re_search (stub_session [] ''>'' PyNone)))
     = ''(>).*$.*(>)$''"
    by code_simp
  ultimately show ?thesis by blast
qed

end
